theory Spec2Isabelle
  imports Main
begin

section \<open>Data model\<close>

text \<open>
  The crawler of \<^verbatim>\<open>stac-crawler.py\<close> works on parsed JSON. A parsed body is any JSON
  value; an object is the association list of its keys in document order (the parser keeps
  one entry per key). Numbers are restricted to integers: no property below depends on a
  fractional number.
\<close>

datatype json =
    JNull
  | JBool bool
  | JNum int
  | JStr string
  | JArr "json list"
  | JObj "(string \<times> json) list"

text \<open>What \<^verbatim>\<open>client.get(u)\<close> gives: an exception (timeout, connection failure, invalid
  URL), or a response with a status code and a body that parses as JSON or does not.\<close>

datatype body = NotJson | Json json

datatype fetch_result = Failed | Response int body

type_synonym web = "string \<Rightarrow> fetch_result"

text \<open>\<^verbatim>\<open>urljoin\<close> of the standard library on two non-empty strings is a parameter.\<close>

type_synonym resolver = "string \<Rightarrow> string \<Rightarrow> string"

datatype py_error = AttributeError | TypeError

text \<open>The notes are f-strings in the source; the number each one prints is kept as an
  argument: \<^verbatim>\<open>Reached collection limit of N.\<close>, \<^verbatim>\<open>Reached depth limit of N.\<close>,
  \<^verbatim>\<open>Federated crawl with N children.\<close> and \<^verbatim>\<open>Single endpoint crawl.\<close>\<close>

datatype crawl_note = CollectionLimit int | DepthLimit int | Federated nat | SingleEndpoint

section \<open>Python primitives\<close>

definition endswith :: "string \<Rightarrow> string \<Rightarrow> bool" where
  "endswith s suf = (length suf \<le> length s \<and> drop (length s - length suf) s = suf)"

text \<open>\<^verbatim>\<open>str.lower\<close> on the ASCII letters; a byte of a multi-byte character is unchanged,
  and no such character lowers to a letter of \<^verbatim>\<open>catalog\<close> or \<^verbatim>\<open>collection\<close>.\<close>

definition lower_char :: "char \<Rightarrow> char" where
  "lower_char c =
     (case map_of (zip ''ABCDEFGHIJKLMNOPQRSTUVWXYZ'' ''abcdefghijklmnopqrstuvwxyz'') c of
        None \<Rightarrow> c
      | Some l \<Rightarrow> l)"

definition lower :: "string \<Rightarrow> string" where
  "lower s = map lower_char s"

text \<open>Truth value of a parsed JSON value in a Python condition.\<close>

fun truthy :: "json \<Rightarrow> bool" where
  "truthy JNull = False"
| "truthy (JBool b) = b"
| "truthy (JNum n) = (n \<noteq> 0)"
| "truthy (JStr s) = (s \<noteq> [])"
| "truthy (JArr xs) = (xs \<noteq> [])"
| "truthy (JObj kvs) = (kvs \<noteq> [])"

text \<open>\<^verbatim>\<open>client.get\<close>: httpx raises on a URL without a scheme, so on the empty string.\<close>

definition client_get :: "web \<Rightarrow> string \<Rightarrow> fetch_result" where
  "client_get w u = (if u = [] then Failed else w u)"

text \<open>\<^verbatim>\<open>raise_for_status\<close> passes the 2xx codes only.\<close>

definition is_success :: "int \<Rightarrow> bool" where
  "is_success st = (200 \<le> st \<and> st < 300)"

text \<open>\<^verbatim>\<open>urljoin(base, href)\<close> for a non-empty base, where \<^verbatim>\<open>href\<close> is whatever
  \<^verbatim>\<open>link.get("href", "")\<close> gave: a falsy value returns the base, a non-empty string is
  resolved, any other value raises TypeError.\<close>

definition link_href :: "(string \<times> json) list \<Rightarrow> json" where
  "link_href lk = (case map_of lk ''href'' of None \<Rightarrow> JStr [] | Some v \<Rightarrow> v)"

definition py_urljoin :: "resolver \<Rightarrow> string \<Rightarrow> json \<Rightarrow> py_error + string" where
  "py_urljoin rj base href =
     (case href of
        JStr s \<Rightarrow> Inr (if s = [] then base else rj base s)
      | j \<Rightarrow> if truthy j then Inl TypeError else Inr base)"

text \<open>The values \<^verbatim>\<open>for link in data.get("links", [])\<close> iterates over: the elements of
  a list, the characters of a string, the keys of an object; any other value is not
  iterable.\<close>

definition links_iter :: "(string \<times> json) list \<Rightarrow> py_error + json list" where
  "links_iter d =
     (case map_of d ''links'' of
        None \<Rightarrow> Inr []
      | Some (JArr ls) \<Rightarrow> Inr ls
      | Some (JStr s) \<Rightarrow> Inr (map (\<lambda>c. JStr [c]) s)
      | Some (JObj kvs) \<Rightarrow> Inr (map (\<lambda>kv. JStr (fst kv)) kvs)
      | Some _ \<Rightarrow> Inl TypeError)"

text \<open>\<^verbatim>\<open>s.add(x)\<close> on a Python set, kept as a duplicate-free list in insertion order. The
  iteration order of a Python set is not specified, so the properties below are stated
  on lengths and on sets of elements, never on positions.\<close>

definition set_add :: "'a \<Rightarrow> 'a list \<Rightarrow> 'a list" where
  "set_add x xs = (if x \<in> set xs then xs else xs @ [x])"

section \<open>Link-Graph engine: \<^verbatim>\<open>harvest_static_catalog\<close>\<close>

definition is_catalog :: "(string \<times> json) list \<Rightarrow> bool" where
  "is_catalog d =
     ((case map_of d ''type'' of
         Some (JStr t) \<Rightarrow> lower t = ''catalog'' \<or> lower t = ''collection''
       | _ \<Rightarrow> False)
      \<or> (case map_of d ''stac_version'' of Some v \<Rightarrow> truthy v | None \<Rightarrow> False))"

definition static_rel :: "(string \<times> json) list \<Rightarrow> bool" where
  "static_rel lk =
     (map_of lk ''rel'' = Some (JStr ''child'') \<or> map_of lk ''rel'' = Some (JStr ''collection''))"

text \<open>The loop over the links of one document; \<open>vis\<close> is \<^verbatim>\<open>visited\<close>, \<open>nxt\<close> is
  \<^verbatim>\<open>next_level\<close>. A link that is not an object has no \<^verbatim>\<open>get\<close>.\<close>

fun static_links ::
  "resolver \<Rightarrow> string \<Rightarrow> string set \<Rightarrow> json list \<Rightarrow> string list \<Rightarrow> py_error + string list"
where
  "static_links rj base vis [] nxt = Inr nxt"
| "static_links rj base vis (JObj lk # ls) nxt =
     (if static_rel lk then
        (case py_urljoin rj base (link_href lk) of
           Inl e \<Rightarrow> Inl e
         | Inr h \<Rightarrow>
             static_links rj base vis ls (if h \<noteq> [] \<and> h \<notin> vis then set_add h nxt else nxt))
      else static_links rj base vis ls nxt)"
| "static_links rj base vis (_ # ls) nxt = Inl AttributeError"

text \<open>The body of \<^verbatim>\<open>for res in results\<close> for the result of fetching \<open>u\<close>. The status
  code is never looked at; only \<^verbatim>\<open>json.JSONDecodeError\<close> is caught, so a body that parses
  to something other than an object raises out of the whole function.\<close>

fun static_result ::
  "resolver \<Rightarrow> string set \<Rightarrow> string \<times> fetch_result \<Rightarrow> json list \<times> string list
     \<Rightarrow> py_error + (json list \<times> string list)"
where
  "static_result rj vis (u, Failed) acc = Inr acc"
| "static_result rj vis (u, Response st NotJson) acc = Inr acc"
| "static_result rj vis (u, Response st (Json (JObj d))) (cols, nxt) =
     (case links_iter d of
        Inl e \<Rightarrow> Inl e
      | Inr ls \<Rightarrow>
          (case static_links rj u vis ls nxt of
             Inl e \<Rightarrow> Inl e
           | Inr nxt' \<Rightarrow> Inr (if is_catalog d then cols @ [JObj d] else cols, nxt')))"
| "static_result rj vis (u, Response st (Json _)) acc = Inl AttributeError"

fun static_results ::
  "resolver \<Rightarrow> string set \<Rightarrow> (string \<times> fetch_result) list \<Rightarrow> json list \<times> string list
     \<Rightarrow> py_error + (json list \<times> string list)"
where
  "static_results rj vis [] acc = Inr acc"
| "static_results rj vis (r # rs) acc =
     (case static_result rj vis r acc of
        Inl e \<Rightarrow> Inl e
      | Inr acc' \<Rightarrow> static_results rj vis rs acc')"

text \<open>The state of the level loop. \<open>levels\<close> is not in the source: it records the frontier
  fetched by each iteration, in order, so that the fetches the engine issues can be
  spoken about.\<close>

record sstate =
  collections :: "json list"
  to_fetch :: "string list"
  visited :: "string set"
  depth :: nat
  levels :: "string list list"

function static_loop ::
  "resolver \<Rightarrow> web \<Rightarrow> int \<Rightarrow> int \<Rightarrow> sstate \<Rightarrow> py_error option \<times> sstate"
where
  "static_loop rj w max_depth hard_limit s =
     (if to_fetch s \<noteq> [] \<and> int (length (collections s)) < hard_limit \<and> int (depth s) < max_depth
      then
        (let results = map (\<lambda>u. (u, client_get w u)) (to_fetch s);
             s1 = s\<lparr>visited := visited s \<union> set (to_fetch s), levels := levels s @ [to_fetch s]\<rparr>
         in case static_results rj (visited s1) results (collections s, []) of
              Inl e \<Rightarrow> (Some e, s1)
            | Inr (cols, nxt) \<Rightarrow>
                static_loop rj w max_depth hard_limit
                  (s1\<lparr>collections := cols, to_fetch := nxt, depth := depth s + 1\<rparr>))
      else (None, s))"
  by pat_completeness auto
termination
  by (relation "measure (\<lambda>(rj, w, max_depth, hard_limit, s). nat (max_depth - int (depth s)))")
     auto

definition static_init :: "string \<Rightarrow> sstate" where
  "static_init start_url =
     \<lparr>collections = [], to_fetch = [start_url], visited = {}, depth = 0, levels = []\<rparr>"

definition static_notes :: "int \<Rightarrow> int \<Rightarrow> sstate \<Rightarrow> crawl_note list" where
  "static_notes max_depth hard_limit s =
     (if hard_limit \<le> int (length (collections s)) then [CollectionLimit hard_limit] else [])
     @ (if max_depth \<le> int (depth s) then [DepthLimit max_depth] else [])"

definition static_run :: "resolver \<Rightarrow> web \<Rightarrow> string \<Rightarrow> int \<Rightarrow> int \<Rightarrow> py_error option \<times> sstate" where
  "static_run rj w start_url max_depth hard_limit =
     static_loop rj w max_depth hard_limit (static_init start_url)"

text \<open>The result of the call: the pair it returns, or the exception it raises.\<close>

definition harvest_static_catalog ::
  "resolver \<Rightarrow> web \<Rightarrow> string \<Rightarrow> int \<Rightarrow> int \<Rightarrow> py_error + (json list \<times> crawl_note list)"
where
  "harvest_static_catalog rj w start_url max_depth hard_limit =
     (case static_run rj w start_url max_depth hard_limit of
        (Some e, s) \<Rightarrow> Inl e
      | (None, s) \<Rightarrow> Inr (collections s, static_notes max_depth hard_limit s))"

text \<open>Names for the three parts of one iteration of the level loop: its condition, the
  state once the fetches of the level are issued, and the outcome of the level's
  \<^verbatim>\<open>for res in results\<close>.\<close>

definition level_guard :: "int \<Rightarrow> int \<Rightarrow> sstate \<Rightarrow> bool" where
  "level_guard max_depth hard_limit s =
     (to_fetch s \<noteq> [] \<and> int (length (collections s)) < hard_limit \<and> int (depth s) < max_depth)"

definition level_issue :: "sstate \<Rightarrow> sstate" where
  "level_issue s =
     s\<lparr>visited := visited s \<union> set (to_fetch s), levels := levels s @ [to_fetch s]\<rparr>"

definition level_results ::
  "resolver \<Rightarrow> web \<Rightarrow> sstate \<Rightarrow> py_error + (json list \<times> string list)" where
  "level_results rj w s =
     static_results rj (visited s \<union> set (to_fetch s))
       (map (\<lambda>u. (u, client_get w u)) (to_fetch s)) (collections s, [])"

text \<open>The widest level of a run: the greatest number of URLs fetched in one level.\<close>

definition max_fanout :: "string list list \<Rightarrow> nat" where
  "max_fanout ls = foldr (\<lambda>l m. max (length l) m) ls 0"

section \<open>Paginated/Federated engine: \<^verbatim>\<open>_dynamic_worker\<close>\<close>

text \<open>Keys of the dictionary \<^verbatim>\<open>unique\<close>. Python compares \<^verbatim>\<open>True\<close> equal to 1 and
  \<^verbatim>\<open>False\<close> to 0; a list or an object is not hashable, and using one as a key raises
  TypeError.\<close>

datatype pykey = KNone | KNum int | KStr string

fun hash_key :: "json \<Rightarrow> pykey option" where
  "hash_key JNull = Some KNone"
| "hash_key (JBool b) = Some (KNum (if b then 1 else 0))"
| "hash_key (JNum n) = Some (KNum n)"
| "hash_key (JStr s) = Some (KStr s)"
| "hash_key (JArr xs) = None"
| "hash_key (JObj kvs) = None"

text \<open>\<^verbatim>\<open>d[k] = v\<close> on a dictionary, which keeps its keys in insertion order: a key already
  there keeps its place and takes the new value.\<close>

fun dict_set :: "'k \<Rightarrow> 'v \<Rightarrow> ('k \<times> 'v) list \<Rightarrow> ('k \<times> 'v) list" where
  "dict_set k v [] = [(k, v)]"
| "dict_set k v (p # ps) = (if fst p = k then (k, v) # ps else p # dict_set k v ps)"

text \<open>\<open>w_fetched\<close> is not in the source: it records the URLs the worker has called
  \<^verbatim>\<open>client.get\<close> on, in order.\<close>

record wstate =
  unique :: "(pykey \<times> json) list"
  dynamic_limit :: nat
  queue :: "string list"
  w_visited :: "string set"
  w_fetched :: "string list"

text \<open>The statements inside the worker's \<^verbatim>\<open>try\<close> each give a flag, whether an exception
  was raised, and the state reached: \<^verbatim>\<open>except Exception: continue\<close> keeps every update
  made before the raise.\<close>

fun upsert_items :: "json list \<Rightarrow> (pykey \<times> json) list \<Rightarrow> bool \<times> (pykey \<times> json) list" where
  "upsert_items [] u = (False, u)"
| "upsert_items (JObj it # its) u =
     (case map_of it ''id'' of
        None \<Rightarrow> upsert_items its u
      | Some k \<Rightarrow>
          (case hash_key k of
             None \<Rightarrow> (True, u)
           | Some hk \<Rightarrow> upsert_items its (dict_set hk (JObj it) u)))"
| "upsert_items (_ # its) u = upsert_items its u"

definition worker_collections :: "(string \<times> json) list \<Rightarrow> wstate \<Rightarrow> bool \<times> wstate" where
  "worker_collections d s =
     (case map_of d ''collections'' of
        Some (JArr items) \<Rightarrow>
          (let s1 = (if dynamic_limit s = 0 then s\<lparr>dynamic_limit := length items\<rparr> else s);
               r = upsert_items items (unique s1)
           in (fst r, s1\<lparr>unique := snd r\<rparr>))
      | _ \<Rightarrow> (False, s))"

definition worker_self :: "(string \<times> json) list \<Rightarrow> wstate \<Rightarrow> bool \<times> wstate" where
  "worker_self d s =
     (if map_of d ''type'' = Some (JStr ''Collection'') then
        (case map_of d ''id'' of
           None \<Rightarrow> (False, s)
         | Some k \<Rightarrow>
             (case hash_key k of
                None \<Rightarrow> (True, s)
              | Some hk \<Rightarrow> (False, s\<lparr>unique := dict_set hk (JObj d) (unique s)\<rparr>)))
      else (False, s))"

definition dynamic_rel :: "(string \<times> json) list \<Rightarrow> bool" where
  "dynamic_rel lk =
     (map_of lk ''rel'' = Some (JStr ''child'') \<or> map_of lk ''rel'' = Some (JStr ''data'')
      \<or> map_of lk ''rel'' = Some (JStr ''collection'')
      \<or> map_of lk ''rel'' = Some (JStr ''children''))"

fun worker_links :: "resolver \<Rightarrow> string \<Rightarrow> json list \<Rightarrow> wstate \<Rightarrow> bool \<times> wstate" where
  "worker_links rj url [] s = (False, s)"
| "worker_links rj url (JObj lk # ls) s =
     (if dynamic_rel lk then
        (case py_urljoin rj url (link_href lk) of
           Inl e \<Rightarrow> (True, s)
         | Inr h \<Rightarrow>
             worker_links rj url ls
               (if h \<noteq> [] \<and> h \<notin> w_visited s \<and> \<not> endswith h ''.json''
                then s\<lparr>w_visited := insert h (w_visited s), queue := queue s @ [h]\<rparr>
                else s))
      else worker_links rj url ls s)"
| "worker_links rj url (_ # ls) s = (True, s)"

text \<open>The \<^verbatim>\<open>try\<close> block once the body is parsed. A parsed body that is not an object
  raises at \<^verbatim>\<open>"collections" in data\<close>, at \<^verbatim>\<open>data["collections"]\<close> or at
  \<^verbatim>\<open>data.get\<close>, before any update.\<close>

definition worker_doc :: "resolver \<Rightarrow> string \<Rightarrow> json \<Rightarrow> wstate \<Rightarrow> wstate" where
  "worker_doc rj url data s =
     (case data of
        JObj d \<Rightarrow>
          (let r1 = worker_collections d s in
           if fst r1 then snd r1
           else
             (let r2 = worker_self d (snd r1) in
              if fst r2 then snd r2
              else
                (case links_iter d of
                   Inl e \<Rightarrow> snd r2
                 | Inr ls \<Rightarrow> snd (worker_links rj url ls (snd r2)))))
      | _ \<Rightarrow> s)"

text \<open>One pass of the loop body after \<^verbatim>\<open>queue.pop(0)\<close>: the fetch, \<^verbatim>\<open>raise_for_status\<close>,
  the parse, and the block above; every exception leaves the loop going.\<close>

definition worker_body :: "resolver \<Rightarrow> web \<Rightarrow> string \<Rightarrow> wstate \<Rightarrow> wstate" where
  "worker_body rj w url s =
     (case client_get w url of
        Failed \<Rightarrow> s
      | Response st b \<Rightarrow>
          (if \<not> is_success st then s
           else (case b of NotJson \<Rightarrow> s | Json data \<Rightarrow> worker_doc rj url data s)))"

text \<open>The \<^verbatim>\<open>while queue\<close> loop may run for ever on an unbounded link graph, so it takes
  fuel: one unit per evaluation of the loop condition. The flag says whether the loop has
  ended; the state is the one reached either way.\<close>

fun worker_loop :: "resolver \<Rightarrow> web \<Rightarrow> nat \<Rightarrow> wstate \<Rightarrow> bool \<times> wstate" where
  "worker_loop rj w 0 s = (False, s)"
| "worker_loop rj w (Suc n) s =
     (case queue s of
        [] \<Rightarrow> (True, s)
      | url # rest \<Rightarrow>
          (if 0 < dynamic_limit s \<and> dynamic_limit s \<le> length (unique s) then (True, s)
           else worker_loop rj w n
                  (worker_body rj w url (s\<lparr>queue := rest, w_fetched := w_fetched s @ [url]\<rparr>))))"

definition worker_init :: "string \<Rightarrow> wstate" where
  "worker_init start_url =
     \<lparr>unique = [], dynamic_limit = 0, queue = [start_url], w_visited = {start_url},
      w_fetched = []\<rparr>"

definition dynamic_worker_run :: "resolver \<Rightarrow> web \<Rightarrow> nat \<Rightarrow> string \<Rightarrow> bool \<times> wstate" where
  "dynamic_worker_run rj w fuel start_url = worker_loop rj w fuel (worker_init start_url)"

text \<open>What \<^verbatim>\<open>_dynamic_worker\<close> returns, \<^verbatim>\<open>list(unique.values())\<close>, when it returns.\<close>

definition dynamic_worker :: "resolver \<Rightarrow> web \<Rightarrow> nat \<Rightarrow> string \<Rightarrow> json list option" where
  "dynamic_worker rj w fuel start_url =
     (let r = dynamic_worker_run rj w fuel start_url
      in if fst r then Some (map snd (unique (snd r))) else None)"

section \<open>Paginated/Federated engine: \<^verbatim>\<open>harvest_dynamic_catalog\<close>\<close>

text \<open>The comprehension \<^verbatim>\<open>[l for l in links if l.get("rel") == "child"]\<close>.\<close>

fun child_links :: "json list \<Rightarrow> py_error + (string \<times> json) list list" where
  "child_links [] = Inr []"
| "child_links (JObj lk # ls) =
     (case child_links ls of
        Inl e \<Rightarrow> Inl e
      | Inr cs \<Rightarrow> Inr (if map_of lk ''rel'' = Some (JStr ''child'') then lk # cs else cs))"
| "child_links (_ # ls) = Inl AttributeError"

text \<open>\<^verbatim>\<open>any(l.get("href", "").endswith(('/collections', '/collections/')) for l in links)\<close>:
  it stops at the first link that matches, and a \<^verbatim>\<open>href\<close> that is not a string has no
  \<^verbatim>\<open>endswith\<close>.\<close>

fun has_master :: "json list \<Rightarrow> py_error + bool" where
  "has_master [] = Inr False"
| "has_master (JObj lk # ls) =
     (case link_href lk of
        JStr h \<Rightarrow>
          (if endswith h ''/collections'' \<or> endswith h ''/collections/'' then Inr True
           else has_master ls)
      | _ \<Rightarrow> Inl AttributeError)"
| "has_master (_ # ls) = Inl AttributeError"

text \<open>How a call of the engine ends: the fuel of a worker ran out (the source would still
  be running), or it returned \<^verbatim>\<open>None\<close> or a pair.\<close>

datatype outcome = OutOfFuel | Returned "(json list \<times> crawl_note list) option"

text \<open>\<open>harvested\<close> is \<^verbatim>\<open>collections\<close>. \<open>fetched\<close> and \<open>invoked\<close> are not in the source:
  the URLs \<^verbatim>\<open>client.get\<close> was called on, and the URLs \<^verbatim>\<open>_dynamic_worker\<close> was called on,
  both in order.\<close>

record dstate =
  harvested :: "json list"
  fetched :: "string list"
  invoked :: "string list"

definition call_worker :: "resolver \<Rightarrow> web \<Rightarrow> nat \<Rightarrow> string \<Rightarrow> dstate \<Rightarrow> bool \<times> dstate" where
  "call_worker rj w fuel h ds =
     (let r = dynamic_worker_run rj w fuel h
      in (fst r,
          ds\<lparr>harvested := harvested ds @ map snd (unique (snd r)),
             fetched := fetched ds @ w_fetched (snd r),
             invoked := invoked ds @ [h]\<rparr>))"

text \<open>\<^verbatim>\<open>for link in child_links\<close> of the federated branch. Every call of the worker gets
  the same fuel.\<close>

fun federated ::
  "resolver \<Rightarrow> web \<Rightarrow> nat \<Rightarrow> string \<Rightarrow> (string \<times> json) list list \<Rightarrow> crawl_note list \<Rightarrow> dstate
     \<Rightarrow> outcome \<times> dstate"
where
  "federated rj w fuel start_url [] notes ds = (Returned (Some (harvested ds, notes)), ds)"
| "federated rj w fuel start_url (lk # lks) notes ds =
     (case py_urljoin rj start_url (link_href lk) of
        Inl e \<Rightarrow> (Returned None, ds)
      | Inr h \<Rightarrow>
          (if h \<noteq> [] \<and> \<not> endswith h ''.json'' then
             (let r = call_worker rj w fuel h ds
              in if fst r then federated rj w fuel start_url lks notes (snd r)
                 else (OutOfFuel, snd r))
           else federated rj w fuel start_url lks notes ds))"

definition harvest_dynamic_run :: "resolver \<Rightarrow> web \<Rightarrow> nat \<Rightarrow> string \<Rightarrow> outcome \<times> dstate" where
  "harvest_dynamic_run rj w fuel start_url =
     (let ds = \<lparr>harvested = [], fetched = [start_url], invoked = []\<rparr> in
      case client_get w start_url of
        Failed \<Rightarrow> (Returned None, ds)
      | Response st b \<Rightarrow>
          (if \<not> is_success st then (Returned None, ds)
           else
             (case b of
                Json (JObj d) \<Rightarrow>
                  (case links_iter d of
                     Inl e \<Rightarrow> (Returned None, ds)
                   | Inr ls \<Rightarrow>
                       (case child_links ls of
                          Inl e \<Rightarrow> (Returned None, ds)
                        | Inr cl \<Rightarrow>
                            (case has_master ls of
                               Inl e \<Rightarrow> (Returned None, ds)
                             | Inr hm \<Rightarrow>
                                 (if cl \<noteq> [] \<and> \<not> hm then
                                    federated rj w fuel start_url cl [Federated (length cl)] ds
                                  else
                                    (let r = call_worker rj w fuel start_url ds
                                     in if fst r
                                        then (Returned (Some (harvested (snd r), [SingleEndpoint])),
                                              snd r)
                                        else (OutOfFuel, snd r))))))
              | _ \<Rightarrow> (Returned None, ds))))"

definition harvest_dynamic_catalog :: "resolver \<Rightarrow> web \<Rightarrow> nat \<Rightarrow> string \<Rightarrow> outcome" where
  "harvest_dynamic_catalog rj w fuel start_url = fst (harvest_dynamic_run rj w fuel start_url)"

section \<open>Strategy classifier: \<^verbatim>\<open>run_reconnaissance\<close> and \<^verbatim>\<open>generate_crawl_plan\<close>\<close>

definition MANUAL_OVERRIDES :: "string list" where
  "MANUAL_OVERRIDES =
     [''astraea-earth-ondemand'', ''bdc-cbers'', ''bdc-sentinel-2'',
      ''catalonia-monthly-sentinel2'', ''cbers'', ''disasters-charter-mapper-catalog'',
      ''kagis-katalog'', ''kyfromabove'', ''gistda-drought-index-in-thailand'',
      ''gistda-flood-disaster-in-thailand'', ''geoplatform-stac-catalog'',
      ''openaerialmap-example'', ''satellite-vu-public-static-stac'',
      ''skyserve-mission-data'', ''swiss-data-cube-p'']"

record profile =
  p_slug :: string
  p_title :: string
  p_url :: string
  p_status :: string

text \<open>The profile \<^verbatim>\<open>run_reconnaissance\<close> appends for one catalog; \<open>probe\<close> is the outcome
  of \<^verbatim>\<open>client.get(url).raise_for_status()\<close>: nothing raised, or the name of the exception
  class.\<close>

definition profile_of :: "string \<Rightarrow> string \<Rightarrow> string \<Rightarrow> string option \<Rightarrow> profile" where
  "profile_of slug title url probe =
     \<lparr>p_slug = slug, p_title = title, p_url = url,
      p_status =
        (if slug \<in> set MANUAL_OVERRIDES then ''Skipped (Manual Override)''
         else (case probe of None \<Rightarrow> ''OK'' | Some name \<Rightarrow> ''Failed: '' @ name))\<rparr>"

text \<open>An entry of the plan: the strategy with the parameters spread into it,
  \<^verbatim>\<open>STATIC_HARVEST_MAX_DEPTH\<close> and \<^verbatim>\<open>COLLECTION_HARD_LIMIT\<close>, or \<^verbatim>\<open>max_depth\<close>.\<close>

datatype strategy = Skip | StaticHarvest int int | DynamicHarvest int

definition plan_entry :: "profile \<Rightarrow> strategy" where
  "plan_entry p =
     (if p_status p \<noteq> ''OK'' then Skip
      else if endswith (p_url p) ''.json'' \<or> endswith (p_url p) ''f=json'' then StaticHarvest 3 300
      else DynamicHarvest 10)"

definition generate_crawl_plan :: "profile list \<Rightarrow> (string \<rightharpoonup> strategy)" where
  "generate_crawl_plan profiles = fold (\<lambda>p plan. plan(p_slug p \<mapsto> plan_entry p)) profiles Map.empty"

section \<open>Scenarios\<close>

text \<open>The short names of the scenarios (\<open>A\<close>, \<open>B\<close>, \<open>S1\<close>, ...) stand for absolute
  URLs. A resolver for the scenarios: every \<^verbatim>\<open>href\<close> in them is an absolute URL, which
  \<^verbatim>\<open>urljoin\<close> returns as it is.\<close>

definition abs_join :: resolver where
  "abs_join base href = href"

text \<open>A link list without a link that the Link-Graph engine follows.\<close>

fun no_child_links :: "json list \<Rightarrow> bool" where
  "no_child_links [] = True"
| "no_child_links (JObj lk # ls) = (\<not> static_rel lk \<and> no_child_links ls)"
| "no_child_links (_ # ls) = False"

text \<open>Root \<open>A\<close> with child links to \<open>B\<close> and \<open>C\<close>, which declare a version and link
  nowhere.\<close>

definition obj_A :: "(string \<times> json) list" where
  "obj_A =
     [(''links'', JArr [JObj [(''rel'', JStr ''child''), (''href'', JStr ''B'')],
                        JObj [(''rel'', JStr ''child''), (''href'', JStr ''C'')]])]"

definition obj_B :: "(string \<times> json) list" where
  "obj_B = [(''stac_version'', JStr ''1.0.0''), (''id'', JStr ''b'')]"

definition obj_C :: "(string \<times> json) list" where
  "obj_C = [(''stac_version'', JStr ''1.0.0''), (''id'', JStr ''c'')]"

definition web_ABC :: web where
  "web_ABC u =
     (if u = ''A'' then Response 200 (Json (JObj obj_A))
      else if u = ''B'' then Response 200 (Json (JObj obj_B))
      else if u = ''C'' then Response 200 (Json (JObj obj_C))
      else Failed)"



text \<open>The key an item of a \<^verbatim>\<open>collections\<close> sequence is stored under, when it has one; a
  sequence whose ids are all hashable (strings, as the data model has them, numbers,
  booleans or null); and the last item of a sequence stored under a given key.\<close>

definition item_key :: "json \<Rightarrow> pykey option" where
  "item_key it =
     (case it of
        JObj kv \<Rightarrow> (case map_of kv ''id'' of None \<Rightarrow> None | Some k \<Rightarrow> hash_key k)
      | _ \<Rightarrow> None)"

fun ids_hashable :: "json list \<Rightarrow> bool" where
  "ids_hashable [] = True"
| "ids_hashable (JObj kv # its) =
     ((case map_of kv ''id'' of None \<Rightarrow> True | Some k \<Rightarrow> hash_key k \<noteq> None) \<and> ids_hashable its)"
| "ids_hashable (_ # its) = ids_hashable its"

definition last_with_key :: "pykey \<Rightarrow> json list \<Rightarrow> json option" where
  "last_with_key k items =
     (case filter (\<lambda>it. item_key it = Some k) items of
        [] \<Rightarrow> None
      | x # xs \<Rightarrow> Some (last (x # xs)))"







text \<open>A root whose document holds two collections and no links.\<close>

definition obj_xy :: "(string \<times> json) list" where
  "obj_xy = [(''collections'', JArr [JObj [(''id'', JStr ''x'')], JObj [(''id'', JStr ''y'')]])]"

definition web_xy :: web where
  "web_xy u = (if u = ''R'' then Response 200 (Json (JObj obj_xy)) else Failed)"

text \<open>A first page with an empty \<^verbatim>\<open>collections\<close> sequence and a link to a second page
  with one collection.\<close>

definition web_pages :: web where
  "web_pages u =
     (if u = ''P1'' then
        Response 200 (Json (JObj [(''collections'', JArr []),
          (''links'', JArr [JObj [(''rel'', JStr ''child''), (''href'', JStr ''P2'')]])]))
      else if u = ''P2'' then
        Response 200 (Json (JObj [(''collections'', JArr [JObj [(''id'', JStr ''x'')]])]))
      else Failed)"





text \<open>The graph of \<open>web_ABC\<close> where \<open>B\<close> answers with a JSON array, and where \<open>B\<close> answers
  with status 404 and a JSON body; a root that answers with a JSON array.\<close>

definition web_array :: web where
  "web_array u =
     (if u = ''A'' then Response 200 (Json (JObj obj_A))
      else if u = ''B'' then Response 200 (Json (JArr []))
      else if u = ''C'' then Response 200 (Json (JObj obj_C))
      else Failed)"

definition web_status :: web where
  "web_status u =
     (if u = ''A'' then Response 200 (Json (JObj obj_A))
      else if u = ''B'' then Response 404 (Json (JObj obj_B))
      else if u = ''C'' then Response 200 (Json (JObj obj_C))
      else Failed)"

definition web_root_array :: web where
  "web_root_array u = (if u = ''R.json'' then Response 200 (Json (JArr [])) else Failed)"

text \<open>Five catalogs as \<^verbatim>\<open>run_reconnaissance\<close> profiles them: one of the override table,
  one that does not answer, and three that do.\<close>

definition recon_example :: "profile list" where
  "recon_example =
     [profile_of ''cbers'' ''CBERS'' ''https://cbers.example/catalog.json'' None,
      profile_of ''down'' ''Down'' ''https://down.example/stac'' (Some ''ConnectError''),
      profile_of ''static'' ''Static'' ''https://s.example/catalog.json'' None,
      profile_of ''arcgis'' ''Query'' ''https://q.example/stac?f=json'' None,
      profile_of ''api'' ''Api'' ''https://api.example/stac/v1'' None]"

section \<open>Properties of the Link-Graph engine\<close>

declare static_loop.simps [simp del]

lemma max_fanout_snoc: "max_fanout (ls @ [l]) = max (max_fanout ls) (length l)"
  unfolding max_fanout_def by (induction ls) auto





lemma static_result_length:
  "static_result rj vis r (cols, nxt) = Inr (cols', nxt') \<Longrightarrow> length cols' \<le> Suc (length cols)"
  by (induction rj vis r "(cols, nxt)" rule: static_result.induct)
     (auto split: sum.splits if_splits)


lemma static_results_length:
  "static_results rj vis rs (cols, nxt) = Inr (cols', nxt') \<Longrightarrow> length cols' \<le> length cols + length rs"
proof (induction rs arbitrary: cols nxt)
  case Nil
  then show ?case by simp
next
  case (Cons r rs)
  from Cons.prems obtain c1 n1 where
    r1: "static_result rj vis r (cols, nxt) = Inr (c1, n1)" and
    r2: "static_results rj vis rs (c1, n1) = Inr (cols', nxt')"
    by (auto split: sum.splits)
  from static_result_length[OF r1] Cons.IH[OF r2] show ?case by simp
qed


lemma static_loop_stop:
  "\<not> level_guard md hl s \<Longrightarrow> static_loop rj w md hl s = (None, s)"
  by (subst static_loop.simps) (auto simp: level_guard_def)

lemma static_loop_raise:
  "level_guard md hl s \<Longrightarrow> level_results rj w s = Inl e
     \<Longrightarrow> static_loop rj w md hl s = (Some e, level_issue s)"
  by (simp add: static_loop.simps[of rj w md hl s] level_guard_def level_results_def
      level_issue_def Let_def)

lemma static_loop_step:
  "level_guard md hl s \<Longrightarrow> level_results rj w s = Inr (cols, nxt)
     \<Longrightarrow> static_loop rj w md hl s =
         static_loop rj w md hl
           ((level_issue s)\<lparr>collections := cols, to_fetch := nxt, depth := depth s + 1\<rparr>)"
  by (simp add: static_loop.simps[of rj w md hl s] level_guard_def level_results_def
      level_issue_def Let_def)

lemma static_loop_rule:
  assumes "P s"
    and "\<And>s cols nxt. P s \<Longrightarrow> level_guard md hl s \<Longrightarrow> level_results rj w s = Inr (cols, nxt)
        \<Longrightarrow> P ((level_issue s)\<lparr>collections := cols, to_fetch := nxt, depth := depth s + 1\<rparr>)"
    and "\<And>s e. P s \<Longrightarrow> level_guard md hl s \<Longrightarrow> level_results rj w s = Inl e
        \<Longrightarrow> Q (level_issue s)"
    and "\<And>s. P s \<Longrightarrow> \<not> level_guard md hl s \<Longrightarrow> Q s"
  shows "Q (snd (static_loop rj w md hl s))"
  using assms
proof (induction rj w md hl s rule: static_loop.induct)
  case (1 rj w md hl s)
  note init = "1.prems"(1) and step = "1.prems"(2) and raise = "1.prems"(3)
    and stop = "1.prems"(4)
  show ?case
  proof (cases "level_guard md hl s")
    case False
    then show ?thesis by (simp add: static_loop_stop stop[OF init])
  next
    case True
    show ?thesis
    proof (cases "level_results rj w s")
      case (Inl e)
      then show ?thesis by (simp add: static_loop_raise[OF True] raise[OF init True])
    next
      case (Inr p)
      obtain cols nxt where p: "p = (cols, nxt)" by (cases p)
      have g: "to_fetch s \<noteq> [] \<and> int (length (collections s)) < hl \<and> int (depth s) < md"
        using True by (simp add: level_guard_def)
      have r: "static_results rj (visited (s\<lparr>visited := visited s \<union> set (to_fetch s), levels := levels s @ [to_fetch s]\<rparr>))
            (map (\<lambda>u. (u, client_get w u)) (to_fetch s)) (collections s, []) = Inr (cols, nxt)"
        using Inr p by (simp add: level_results_def)
      have P2: "P ((s\<lparr>visited := visited s \<union> set (to_fetch s), levels := levels s @ [to_fetch s]\<rparr>)
              \<lparr>collections := cols, to_fetch := nxt, depth := depth s + 1\<rparr>)"
        using step[OF init True Inr[unfolded p]] by (simp add: level_issue_def)
      have "Q (snd (static_loop rj w md hl
           ((s\<lparr>visited := visited s \<union> set (to_fetch s), levels := levels s @ [to_fetch s]\<rparr>)
              \<lparr>collections := cols, to_fetch := nxt, depth := depth s + 1\<rparr>)))"
        by (rule "1.IH"[OF g refl refl r refl P2 step raise stop])
      then show ?thesis
        using static_loop_step[OF True Inr[unfolded p]] by (simp add: level_issue_def)
    qed
  qed
qed


lemma static_levels_bound:
  "int (length (levels (snd (static_run rj w start md hl)))) \<le> max md 0"
  unfolding static_run_def
proof (rule static_loop_rule[where P = "\<lambda>s. length (levels s) = depth s \<and> int (depth s) \<le> max md 0"])
  show "length (levels (static_init start)) = depth (static_init start) \<and>
    int (depth (static_init start)) \<le> max md 0" by (simp add: static_init_def)
qed (auto simp: level_issue_def level_guard_def)

lemma static_overshoot:
  assumes "0 \<le> hl"
  shows "int (length (collections (snd (static_run rj w start md hl))))
           \<le> hl + int (max_fanout (levels (snd (static_run rj w start md hl))))"
  unfolding static_run_def
proof (rule static_loop_rule[where P = "\<lambda>s. int (length (collections s)) \<le> hl + int (max_fanout (levels s))"
       and Q = "\<lambda>s. int (length (collections s)) \<le> hl + int (max_fanout (levels s))"])
  show "int (length (collections (static_init start))) \<le> hl + int (max_fanout (levels (static_init start)))"
    using assms by (simp add: static_init_def max_fanout_def)
next
  fix s cols nxt
  assume a: "level_guard md hl s" "level_results rj w s = Inr (cols, nxt)"
  from static_results_length[OF a(2)[unfolded level_results_def]]
  have "length cols \<le> length (collections s) + length (to_fetch s)" by simp
  then show "int (length (collections ((level_issue s)\<lparr>collections := cols, to_fetch := nxt, depth := depth s + 1\<rparr>)))
      \<le> hl + int (max_fanout (levels ((level_issue s)\<lparr>collections := cols, to_fetch := nxt, depth := depth s + 1\<rparr>)))"
    using a(1) by (auto simp: level_issue_def level_guard_def max_fanout_snoc max_def)
next
  fix s :: sstate and e :: py_error
  assume "int (length (collections s)) \<le> hl + int (max_fanout (levels s))"
  then show "int (length (collections (level_issue s))) \<le> hl + int (max_fanout (levels (level_issue s)))"
    by (simp add: level_issue_def max_fanout_snoc)
qed simp


lemma static_links_none:
  "no_child_links ls \<Longrightarrow> static_links rj base vis ls nxt = Inr nxt"
  by (induction rj base vis ls nxt rule: static_links.induct) auto

text \<open>
  C2 (as amended). Root \<open>A\<close> has two \<^verbatim>\<open>child\<close> links, resolving to \<open>B\<close> and \<open>C\<close>, and no
  recognised type or version; \<open>B\<close> and \<open>C\<close> each return a document with a non-empty
  \<^verbatim>\<open>stac_version\<close> and no link the engine follows. The traversal from \<open>A\<close> with maximum
  depth 2 and hard limit 300 returns exactly the two records of \<open>B\<close> and \<open>C\<close>, and its notes
  are exactly the depth-limit note: the loop ends with \<^verbatim>\<open>depth\<close> equal to the maximum depth,
  and the note is added whenever that holds.
\<close>

theorem link_graph_scenario:
  assumes ne: "A \<noteq> []" "B \<noteq> []" "C \<noteq> []" and diff: "A \<noteq> B" "A \<noteq> C" "B \<noteq> C"
    and wA: "w A = Response sa (Json (JObj dA))" and nA: "\<not> is_catalog dA"
    and lA: "links_iter dA = Inr [JObj lB, JObj lC]"
    and rB: "map_of lB ''rel'' = Some (JStr ''child'')"
    and hB: "py_urljoin rj A (link_href lB) = Inr B"
    and rC: "map_of lC ''rel'' = Some (JStr ''child'')"
    and hC: "py_urljoin rj A (link_href lC) = Inr C"
    and wB: "w B = Response sb (Json (JObj dB))"
    and vB: "map_of dB ''stac_version'' = Some (JStr v1)" "v1 \<noteq> []"
    and lB: "links_iter dB = Inr ksB" "no_child_links ksB"
    and wC: "w C = Response sc (Json (JObj dC))"
    and vC: "map_of dC ''stac_version'' = Some (JStr v2)" "v2 \<noteq> []"
    and lC: "links_iter dC = Inr ksC" "no_child_links ksC"
  shows "\<exists>recs. harvest_static_catalog rj w A 2 300 = Inr (recs, [DepthLimit 2])
           \<and> length recs = 2 \<and> set recs = {JObj dB, JObj dC}"
proof -
  let ?s0 = "static_init A"
  let ?s1 = "\<lparr>collections = [], to_fetch = [B, C], visited = {A}, depth = 1, levels = [[A]]\<rparr>"
  let ?s2 = "\<lparr>collections = [JObj dB, JObj dC], to_fetch = [], visited = {A, B, C}, depth = 2, levels = [[A], [B, C]]\<rparr>"
  have cB: "is_catalog dB" and cC: "is_catalog dC"
    using vB vC by (simp_all add: is_catalog_def)
  have g0: "level_guard 2 300 ?s0" by (simp add: level_guard_def static_init_def)
  have r0: "level_results rj w ?s0 = Inr ([], [B, C])"
    using ne diff wA nA lA rB hB rC hC
    by (simp add: level_results_def static_init_def client_get_def static_rel_def set_add_def)
  have "(level_issue ?s0)\<lparr>collections := [], to_fetch := [B, C], depth := depth ?s0 + 1\<rparr> = ?s1"
    by (simp add: level_issue_def static_init_def)
  then have e0: "static_loop rj w 2 300 ?s0 = static_loop rj w 2 300 ?s1"
    using static_loop_step[OF g0 r0] by simp
  have g1: "level_guard 2 300 ?s1" by (simp add: level_guard_def)
  have r1: "level_results rj w ?s1 = Inr ([JObj dB, JObj dC], [])"
    using ne wB wC cB cC lB lC
    by (simp add: level_results_def client_get_def static_links_none)
  have "{A} \<union> {B, C} = {A, B, C}" by auto
  then have "(level_issue ?s1)\<lparr>collections := [JObj dB, JObj dC], to_fetch := [], depth := depth ?s1 + 1\<rparr> = ?s2"
    by (simp add: level_issue_def)
  then have e1: "static_loop rj w 2 300 ?s1 = static_loop rj w 2 300 ?s2"
    using static_loop_step[OF g1 r1] by simp
  have e2: "static_loop rj w 2 300 ?s2 = (None, ?s2)"
    by (rule static_loop_stop) (simp add: level_guard_def)
  have run: "static_run rj w A 2 300 = (None, ?s2)"
    unfolding static_run_def using e0 e1 e2 by (simp only:)
  have "harvest_static_catalog rj w A 2 300 = Inr ([JObj dB, JObj dC], [DepthLimit 2])"
    by (simp add: harvest_static_catalog_def run static_notes_def)
  then show ?thesis by simp
qed

lemmas static_eval =
  harvest_static_catalog_def static_run_def static_init_def static_notes_def static_loop.simps
  client_get_def links_iter_def static_rel_def link_href_def py_urljoin_def set_add_def
  is_catalog_def lower_def lower_char_def abs_join_def

theorem link_graph_scenario_witness:
  "\<exists>recs. harvest_static_catalog abs_join web_ABC ''A'' 2 300 = Inr (recs, [DepthLimit 2])
     \<and> length recs = 2 \<and> set recs = {JObj obj_B, JObj obj_C}"
  by (rule link_graph_scenario[where A = "''A''" and B = "''B''" and C = "''C''"
        and sa = 200 and sb = 200 and sc = 200 and dA = obj_A
        and lB = "[(''rel'', JStr ''child''), (''href'', JStr ''B'')]"
        and lC = "[(''rel'', JStr ''child''), (''href'', JStr ''C'')]"
        and ?v1.0 = "''1.0.0''" and ?v2.0 = "''1.0.0''" and ksB = "[]" and ksC = "[]"])
     (simp_all add: web_ABC_def obj_A_def obj_B_def obj_C_def is_catalog_def links_iter_def
        py_urljoin_def link_href_def abs_join_def)

text \<open>C2 as stated fails: on the scenario's own graph the note list is not empty.\<close>

theorem link_graph_scenario_counterexample:
  "harvest_static_catalog abs_join web_ABC ''A'' 2 300
     = Inr ([JObj obj_B, JObj obj_C], [DepthLimit 2])
   \<and> harvest_static_catalog abs_join web_ABC ''A'' 2 300 \<noteq> Inr ([JObj obj_B, JObj obj_C], [])
   \<and> harvest_static_catalog abs_join web_ABC ''A'' 2 300 \<noteq> Inr ([JObj obj_C, JObj obj_B], [])"
  by (simp add: static_eval web_ABC_def obj_A_def obj_B_def obj_C_def)

text \<open>
  C7. Depth bound: for every link graph and every maximum depth \<open>d\<close>, the level loop runs
  at most \<open>d\<close> times, and every URL the engine fetches belongs to a level below \<open>d\<close>, so
  none is fetched at a level greater than \<open>d\<close>. This holds as well for a run that an
  exception cuts short.
\<close>

theorem depth_bound:
  "int (length (levels (snd (static_run rj w start d hl)))) \<le> max d 0
   \<and> (\<forall>k u. k < length (levels (snd (static_run rj w start d hl)))
              \<and> u \<in> set (levels (snd (static_run rj w start d hl)) ! k)
          \<longrightarrow> int k < d)"
  using static_levels_bound[of rj w start d hl] by auto

theorem depth_bound_witness:
  "length (levels (snd (static_run abs_join web_ABC ''A'' 2 300))) = 2
   \<and> ''C'' \<in> set (levels (snd (static_run abs_join web_ABC ''A'' 2 300)) ! 1)
   \<and> int 1 < 2"
  using depth_bound[of abs_join web_ABC "''A''" 2 300]
  by (simp add: static_eval web_ABC_def obj_A_def obj_B_def obj_C_def)

text \<open>
  C8. Hard-limit overshoot bound: for every link graph and every hard limit (a non-negative
  number), the records of the final result are at most the hard limit plus the greatest
  number of URLs fetched in one level.
\<close>

theorem hard_limit_overshoot:
  assumes "0 \<le> hl"
    and "harvest_static_catalog rj w start d hl = Inr (recs, notes)"
  shows "int (length recs) \<le> hl + int (max_fanout (levels (snd (static_run rj w start d hl))))"
proof -
  from assms(2) have "recs = collections (snd (static_run rj w start d hl))"
    by (auto simp: harvest_static_catalog_def split: prod.splits option.splits)
  then show ?thesis using static_overshoot[OF assms(1)] by simp
qed

theorem hard_limit_overshoot_witness:
  "(0::int) \<le> 1
   \<and> harvest_static_catalog abs_join web_ABC ''A'' 3 1 = Inr ([JObj obj_B, JObj obj_C], [CollectionLimit 1])
   \<and> max_fanout (levels (snd (static_run abs_join web_ABC ''A'' 3 1))) = 2
   \<and> int (length [JObj obj_B, JObj obj_C]) \<le> 1 + int 2"
proof -
  have r: "harvest_static_catalog abs_join web_ABC ''A'' 3 1
             = Inr ([JObj obj_B, JObj obj_C], [CollectionLimit 1])"
    by (simp add: static_eval web_ABC_def obj_A_def obj_B_def obj_C_def)
  have m: "max_fanout (levels (snd (static_run abs_join web_ABC ''A'' 3 1))) = 2"
    by (simp add: static_eval web_ABC_def obj_A_def obj_B_def obj_C_def max_fanout_def)
  from hard_limit_overshoot[OF _ r] m r show ?thesis by simp
qed

section \<open>Properties of the Paginated/Federated engine\<close>


lemma worker_self_frame:
  "queue (snd (worker_self d s)) = queue s"
  "w_visited (snd (worker_self d s)) = w_visited s"
  "w_fetched (snd (worker_self d s)) = w_fetched s"
  "dynamic_limit (snd (worker_self d s)) = dynamic_limit s"
  by (simp_all add: worker_self_def split: option.splits)

lemma worker_links_frame:
  "w_fetched (snd (worker_links rj url ls s)) = w_fetched s"
  "dynamic_limit (snd (worker_links rj url ls s)) = dynamic_limit s"
  "unique (snd (worker_links rj url ls s)) = unique s"
  by (induction rj url ls s rule: worker_links.induct) (simp_all split: sum.splits)







lemma worker_doc_limit:
  "dynamic_limit (worker_doc rj url (JObj d) s) =
     (case map_of d ''collections'' of
        Some (JArr items) \<Rightarrow> if dynamic_limit s = 0 then length items else dynamic_limit s
      | _ \<Rightarrow> dynamic_limit s)"
proof -
  have c: "dynamic_limit (snd (worker_collections d s)) =
     (case map_of d ''collections'' of
        Some (JArr items) \<Rightarrow> if dynamic_limit s = 0 then length items else dynamic_limit s
      | _ \<Rightarrow> dynamic_limit s)"
    by (simp add: worker_collections_def Let_def split: option.splits json.splits)
  show ?thesis
    by (simp add: worker_doc_def Let_def worker_self_frame worker_links_frame c[symmetric]
        split: sum.splits)
qed

lemma worker_doc_limit_fixed:
  "dynamic_limit s \<noteq> 0 \<Longrightarrow> dynamic_limit (worker_doc rj url data s) = dynamic_limit s"
  by (cases data) (simp_all add: worker_doc_limit split: option.splits json.splits, simp_all add: worker_doc_def)

lemma worker_body_limit_fixed:
  "dynamic_limit s \<noteq> 0 \<Longrightarrow> dynamic_limit (worker_body rj w url s) = dynamic_limit s"
  by (simp add: worker_body_def worker_doc_limit_fixed split: fetch_result.splits body.splits)

lemma map_of_dict_set: "map_of (dict_set k v u) k' = (if k' = k then Some v else map_of u k')"
  by (induction u) auto

lemma dict_set_keys: "fst ` set (dict_set k v u) = insert k (fst ` set u)"
  by (induction u) auto

lemma dict_set_distinct: "distinct (map fst u) \<Longrightarrow> distinct (map fst (dict_set k v u))"
  by (induction u) (auto simp: dict_set_keys)

lemma last_with_key_Cons:
  "last_with_key k (it # its) =
     (case last_with_key k its of
        Some x \<Rightarrow> Some x
      | None \<Rightarrow> if item_key it = Some k then Some it else None)"
  by (simp add: last_with_key_def split: list.splits)

lemma upsert_items_last_wins:
  "ids_hashable items \<Longrightarrow>
     \<not> fst (upsert_items items u) \<and>
     map_of (snd (upsert_items items u)) k =
       (case last_with_key k items of Some it \<Rightarrow> Some it | None \<Rightarrow> map_of u k)"
proof (induction items u rule: upsert_items.induct)
  case (1 u)
  then show ?case by (simp add: last_with_key_def)
next
  case (2 it its u)
  then show ?case
    by (auto simp: item_key_def map_of_dict_set last_with_key_Cons split: option.splits)
qed (auto simp: item_key_def last_with_key_Cons split: option.splits)

lemma upsert_items_distinct:
  "distinct (map fst u) \<Longrightarrow> distinct (map fst (snd (upsert_items items u)))"
  by (induction items u rule: upsert_items.induct) (auto simp: dict_set_distinct split: option.splits)











lemmas dynamic_eval =
  harvest_dynamic_run_def harvest_dynamic_catalog_def call_worker_def dynamic_worker_run_def
  worker_init_def worker_body_def worker_doc_def worker_collections_def worker_self_def
  client_get_def is_success_def links_iter_def link_href_def py_urljoin_def dynamic_rel_def
  endswith_def abs_join_def Let_def

lemma scenario_xy:
  assumes "R \<noteq> []" "is_success st" "x \<noteq> y"
    and "w R = Response st (Json (JObj d))"
    and "map_of d ''collections'' = Some (JArr [JObj ix, JObj iy])"
    and "map_of ix ''id'' = Some (JStr x)" "map_of iy ''id'' = Some (JStr y)"
    and "map_of d ''type'' \<noteq> Some (JStr ''Collection'')"
    and "links_iter d = Inr []"
  shows "harvest_dynamic_catalog rj w (Suc (Suc n)) R = Returned (Some ([JObj ix, JObj iy], [SingleEndpoint]))
       \<and> dynamic_limit (snd (dynamic_worker_run rj w (Suc (Suc n)) R)) = 2"
  using assms
  by (simp add: harvest_dynamic_run_def harvest_dynamic_catalog_def call_worker_def dynamic_worker_run_def
  worker_init_def worker_body_def worker_doc_def worker_collections_def worker_self_def
  client_get_def Let_def)


section \<open>Properties of the strategy classifier\<close>

lemma plan_fold_other:
  "k \<notin> p_slug ` set ps \<Longrightarrow>
     fold (\<lambda>p plan. plan(p_slug p \<mapsto> plan_entry p)) ps m k = m k"
  by (induction ps arbitrary: m) auto

lemma plan_fold_entry:
  "distinct (map p_slug ps) \<Longrightarrow> p \<in> set ps \<Longrightarrow>
     fold (\<lambda>p plan. plan(p_slug p \<mapsto> plan_entry p)) ps m (p_slug p) = Some (plan_entry p)"
  by (induction ps arbitrary: m) (auto simp: plan_fold_other)


text \<open>
  C9. Strategy classifier, in order, for every profile: a status other than \<^verbatim>\<open>OK\<close>
  gives Skip; otherwise a URL ending in \<^verbatim>\<open>.json\<close> or in \<^verbatim>\<open>f=json\<close> gives the static
  harvest with maximum depth 3 and hard limit 300; otherwise the dynamic harvest with
  maximum depth 10. A slug of the manual override table never has status \<^verbatim>\<open>OK\<close>, so it
  is planned as Skip whatever its URL and its reachability; any other slug has status
  \<^verbatim>\<open>OK\<close> exactly when its probe raised nothing. The plan holds this entry for every
  profile of a list with distinct slugs.
\<close>

theorem strategy_classifier:
  "(p_status p \<noteq> ''OK'' \<longrightarrow> plan_entry p = Skip)
   \<and> (p_status p = ''OK'' \<and> (endswith (p_url p) ''.json'' \<or> endswith (p_url p) ''f=json'')
        \<longrightarrow> plan_entry p = StaticHarvest 3 300)
   \<and> (p_status p = ''OK'' \<and> \<not> endswith (p_url p) ''.json'' \<and> \<not> endswith (p_url p) ''f=json''
        \<longrightarrow> plan_entry p = DynamicHarvest 10)
   \<and> (slug \<in> set MANUAL_OVERRIDES \<longrightarrow> plan_entry (profile_of slug title url probe) = Skip)
   \<and> (slug \<notin> set MANUAL_OVERRIDES \<longrightarrow>
        (p_status (profile_of slug title url probe) = ''OK'') = (probe = None))
   \<and> (distinct (map p_slug ps) \<and> p \<in> set ps
        \<longrightarrow> generate_crawl_plan ps (p_slug p) = Some (plan_entry p))"
proof -
  have entry: "(p_status p \<noteq> ''OK'' \<longrightarrow> plan_entry p = Skip)
   \<and> (p_status p = ''OK'' \<and> (endswith (p_url p) ''.json'' \<or> endswith (p_url p) ''f=json'')
        \<longrightarrow> plan_entry p = StaticHarvest 3 300)
   \<and> (p_status p = ''OK'' \<and> \<not> endswith (p_url p) ''.json'' \<and> \<not> endswith (p_url p) ''f=json''
        \<longrightarrow> plan_entry p = DynamicHarvest 10)"
    by (simp add: plan_entry_def)
  have override: "slug \<in> set MANUAL_OVERRIDES \<longrightarrow> plan_entry (profile_of slug title url probe) = Skip"
    by (simp add: plan_entry_def profile_of_def)
  have probe: "slug \<notin> set MANUAL_OVERRIDES \<longrightarrow>
        (p_status (profile_of slug title url probe) = ''OK'') = (probe = None)"
    by (simp add: profile_of_def split: option.splits)
  have plan: "distinct (map p_slug ps) \<and> p \<in> set ps
        \<longrightarrow> generate_crawl_plan ps (p_slug p) = Some (plan_entry p)"
    by (simp add: generate_crawl_plan_def plan_fold_entry)
  from entry override probe plan show ?thesis by blast
qed

theorem strategy_classifier_witness:
  "generate_crawl_plan recon_example ''cbers'' = Some Skip
   \<and> ''cbers'' \<in> set MANUAL_OVERRIDES
   \<and> generate_crawl_plan recon_example ''down'' = Some Skip
   \<and> generate_crawl_plan recon_example ''static'' = Some (StaticHarvest 3 300)
   \<and> generate_crawl_plan recon_example ''arcgis'' = Some (StaticHarvest 3 300)
   \<and> generate_crawl_plan recon_example ''api'' = Some (DynamicHarvest 10)
   \<and> distinct (map p_slug recon_example)"
  using strategy_classifier[of "profile_of ''api'' ''Api'' ''https://api.example/stac/v1'' None"
      "''cbers''" "''CBERS''" "''https://cbers.example/catalog.json''" None recon_example]
  by (simp add: recon_example_def generate_crawl_plan_def profile_of_def MANUAL_OVERRIDES_def
      plan_entry_def endswith_def)

section \<open>Visited-once\<close>



section \<open>Federation branch selection\<close>



lemma worker_doc_keys:
  assumes "distinct (map fst (unique s))"
  shows "distinct (map fst (unique (worker_doc rj url data s)))"
proof (cases data)
  case (JObj d)
  have k1: "distinct (map fst (unique (snd (worker_collections d s))))"
    using assms upsert_items_distinct
    by (auto simp: worker_collections_def Let_def split: option.splits json.splits)
  have k2: "distinct (map fst (unique (snd (worker_self d (snd (worker_collections d s))))))"
    using k1 by (auto simp: worker_self_def dict_set_distinct split: option.splits)
  show ?thesis
    using k1 k2 by (simp add: worker_doc_def JObj Let_def worker_links_frame split: sum.splits)
qed (simp_all add: worker_doc_def assms)

lemma worker_body_keys:
  "distinct (map fst (unique s)) \<Longrightarrow> distinct (map fst (unique (worker_body rj w url s)))"
  by (simp add: worker_body_def worker_doc_keys split: fetch_result.splits body.splits)

lemma worker_loop_keys:
  "distinct (map fst (unique s)) \<Longrightarrow> distinct (map fst (unique (snd (worker_loop rj w fuel s))))"
proof (induction fuel arbitrary: s)
  case 0
  then show ?case by simp
next
  case (Suc n)
  show ?case
  proof (cases "queue s")
    case Nil
    then show ?thesis using Suc.prems by simp
  next
    case (Cons url rest)
    have "distinct (map fst (unique (s\<lparr>queue := rest, w_fetched := w_fetched s @ [url]\<rparr>)))"
      using Suc.prems by simp
    from Suc.IH[OF worker_body_keys[OF this]] Suc.prems Cons
    show ?thesis by simp
  qed
qed

lemma worker_loop_finished:
  "fst (worker_loop rj w fuel s) \<Longrightarrow>
     queue (snd (worker_loop rj w fuel s)) = []
     \<or> (0 < dynamic_limit (snd (worker_loop rj w fuel s))
         \<and> dynamic_limit (snd (worker_loop rj w fuel s))
               \<le> length (unique (snd (worker_loop rj w fuel s))))"
proof (induction fuel arbitrary: s)
  case 0
  then show ?case by simp
next
  case (Suc n)
  show ?case
  proof (cases "queue s")
    case Nil
    then show ?thesis by simp
  next
    case (Cons url rest)
    show ?thesis
    proof (cases "0 < dynamic_limit s \<and> dynamic_limit s \<le> length (unique s)")
      case True
      then show ?thesis using Cons by simp
    next
      case False
      let ?s' = "worker_body rj w url (s\<lparr>queue := rest, w_fetched := w_fetched s @ [url]\<rparr>)"
      have eq: "worker_loop rj w (Suc n) s = worker_loop rj w n ?s'"
        using Cons False by auto
      from Suc.prems have "fst (worker_loop rj w n ?s')" by (simp only: eq)
      from Suc.IH[OF this] show ?thesis by (simp only: eq)
    qed
  qed
qed

lemma worker_keys_distinct:
  "distinct (map fst (unique (snd (dynamic_worker_run rj w fuel start))))"
  by (simp add: dynamic_worker_run_def worker_loop_keys worker_init_def)



section \<open>Soft limit\<close>

text \<open>
  C4 (as amended). Whenever a fetched document carries a \<^verbatim>\<open>collections\<close> field that is a
  sequence while the soft limit is still 0, which stands for unset, the worker sets the soft
  limit to the length of that sequence: the first non-empty sequence fixes it, an empty one
  leaves it unset. Once the soft limit is not 0 no fetch changes it, and the worker stops
  before the next dequeue as soon as the soft limit is not 0 and the number of accumulated
  ids (the keys of \<^verbatim>\<open>unique\<close>, which are distinct) has reached it; until then it goes on
  with the next URL of the queue, so a worker that has returned has emptied its queue or
  reached its soft limit. Every item of such a sequence that has an id is stored
  under its id, the last item with a given id winning (ids being hashable values). In
  particular, a single-endpoint root whose document holds a sequence of two items with
  distinct ids \<open>x\<close> and \<open>y\<close> and no links yields exactly these two records, the soft limit
  being 2.
\<close>

theorem soft_limit_heuristic:
  "(map_of d ''collections'' = Some (JArr items) \<longrightarrow>
      dynamic_limit (worker_doc rj url (JObj d) s)
        = (if dynamic_limit s = 0 then length items else dynamic_limit s))
   \<and> (dynamic_limit s \<noteq> 0 \<longrightarrow> dynamic_limit (worker_body rj w url s) = dynamic_limit s)
   \<and> (queue s \<noteq> [] \<and> 0 < dynamic_limit s \<and> dynamic_limit s \<le> length (unique s) \<longrightarrow>
        worker_loop rj w (Suc n) s = (True, s))
   \<and> (queue s = url # rest \<and> \<not> (0 < dynamic_limit s \<and> dynamic_limit s \<le> length (unique s)) \<longrightarrow>
        worker_loop rj w (Suc n) s =
          worker_loop rj w n
            (worker_body rj w url (s\<lparr>queue := rest, w_fetched := w_fetched s @ [url]\<rparr>)))
   \<and> (fst (dynamic_worker_run rj w fuel start) \<longrightarrow>
        queue (snd (dynamic_worker_run rj w fuel start)) = []
        \<or> (0 < dynamic_limit (snd (dynamic_worker_run rj w fuel start))
            \<and> dynamic_limit (snd (dynamic_worker_run rj w fuel start))
                  \<le> length (unique (snd (dynamic_worker_run rj w fuel start)))))
   \<and> distinct (map fst (unique (snd (dynamic_worker_run rj w fuel start))))
   \<and> (map_of d ''collections'' = Some (JArr items) \<and> ids_hashable items \<longrightarrow>
        \<not> fst (worker_collections d s)
        \<and> map_of (unique (snd (worker_collections d s))) k
            = (case last_with_key k items of Some it \<Rightarrow> Some it | None \<Rightarrow> map_of (unique s) k))
   \<and> (R \<noteq> [] \<and> is_success st \<and> x \<noteq> y \<and> w R = Response st (Json (JObj dR))
        \<and> map_of dR ''collections'' = Some (JArr [JObj ix, JObj iy])
        \<and> map_of ix ''id'' = Some (JStr x) \<and> map_of iy ''id'' = Some (JStr y)
        \<and> map_of dR ''type'' \<noteq> Some (JStr ''Collection'') \<and> links_iter dR = Inr [] \<longrightarrow>
        harvest_dynamic_catalog rj w (Suc (Suc n)) R
          = Returned (Some ([JObj ix, JObj iy], [SingleEndpoint]))
        \<and> dynamic_limit (snd (dynamic_worker_run rj w (Suc (Suc n)) R)) = 2)"
proof -
  have c1: "map_of d ''collections'' = Some (JArr items) \<longrightarrow>
      dynamic_limit (worker_doc rj url (JObj d) s)
        = (if dynamic_limit s = 0 then length items else dynamic_limit s)"
    by (simp add: worker_doc_limit)
  have c2: "dynamic_limit s \<noteq> 0 \<longrightarrow> dynamic_limit (worker_body rj w url s) = dynamic_limit s"
    by (simp add: worker_body_limit_fixed)
  have c3: "queue s \<noteq> [] \<and> 0 < dynamic_limit s \<and> dynamic_limit s \<le> length (unique s) \<longrightarrow>
        worker_loop rj w (Suc n) s = (True, s)"
    by (simp split: list.splits)
  have c4: "queue s = url # rest \<and> \<not> (0 < dynamic_limit s \<and> dynamic_limit s \<le> length (unique s)) \<longrightarrow>
        worker_loop rj w (Suc n) s =
          worker_loop rj w n
            (worker_body rj w url (s\<lparr>queue := rest, w_fetched := w_fetched s @ [url]\<rparr>))"
    by auto
  have c5: "distinct (map fst (unique (snd (dynamic_worker_run rj w fuel start))))"
    by (rule worker_keys_distinct)
  have c8: "fst (dynamic_worker_run rj w fuel start) \<longrightarrow>
        queue (snd (dynamic_worker_run rj w fuel start)) = []
        \<or> (0 < dynamic_limit (snd (dynamic_worker_run rj w fuel start))
            \<and> dynamic_limit (snd (dynamic_worker_run rj w fuel start))
                  \<le> length (unique (snd (dynamic_worker_run rj w fuel start))))"
    using worker_loop_finished[of rj w fuel "worker_init start"]
    by (simp add: dynamic_worker_run_def)
  have c6: "map_of d ''collections'' = Some (JArr items) \<and> ids_hashable items \<longrightarrow>
        \<not> fst (worker_collections d s)
        \<and> map_of (unique (snd (worker_collections d s))) k
            = (case last_with_key k items of Some it \<Rightarrow> Some it | None \<Rightarrow> map_of (unique s) k)"
    using upsert_items_last_wins[of items _ k]
    by (auto simp: worker_collections_def Let_def split: option.splits)
  have c7: "R \<noteq> [] \<and> is_success st \<and> x \<noteq> y \<and> w R = Response st (Json (JObj dR))
        \<and> map_of dR ''collections'' = Some (JArr [JObj ix, JObj iy])
        \<and> map_of ix ''id'' = Some (JStr x) \<and> map_of iy ''id'' = Some (JStr y)
        \<and> map_of dR ''type'' \<noteq> Some (JStr ''Collection'') \<and> links_iter dR = Inr [] \<longrightarrow>
        harvest_dynamic_catalog rj w (Suc (Suc n)) R
          = Returned (Some ([JObj ix, JObj iy], [SingleEndpoint]))
        \<and> dynamic_limit (snd (dynamic_worker_run rj w (Suc (Suc n)) R)) = 2"
    using scenario_xy[of R st x y w dR ix iy rj n] by blast
  from c1 c2 c3 c4 c5 c6 c7 c8 show ?thesis by blast
qed

theorem soft_limit_heuristic_witness:
  "map_of obj_xy ''collections'' = Some (JArr [JObj [(''id'', JStr ''x'')], JObj [(''id'', JStr ''y'')]])
   \<and> ids_hashable [JObj [(''id'', JStr ''x'')], JObj [(''id'', JStr ''y'')]]
   \<and> dynamic_limit (worker_doc abs_join ''R'' (JObj obj_xy) (worker_init ''R'')) = 2
   \<and> map_of (unique (snd (worker_collections obj_xy (worker_init ''R'')))) (KStr ''y'')
        = Some (JObj [(''id'', JStr ''y'')])
   \<and> web_xy ''R'' = Response 200 (Json (JObj obj_xy))
   \<and> harvest_dynamic_catalog abs_join web_xy 2 ''R''
        = Returned (Some ([JObj [(''id'', JStr ''x'')], JObj [(''id'', JStr ''y'')]], [SingleEndpoint]))
   \<and> dynamic_limit (snd (dynamic_worker_run abs_join web_xy 2 ''R'')) = 2
   \<and> fst (dynamic_worker_run abs_join web_xy 2 ''R'')
   \<and> queue (snd (dynamic_worker_run abs_join web_xy 2 ''R'')) = []
   \<and> worker_loop abs_join web_xy 1
         \<lparr>unique = [(KStr ''x'', JNull)], dynamic_limit = 1, queue = [''Q''], w_visited = {''Q''},
          w_fetched = []\<rparr>
       = (True, \<lparr>unique = [(KStr ''x'', JNull)], dynamic_limit = 1, queue = [''Q''],
                 w_visited = {''Q''}, w_fetched = []\<rparr>)"
  using soft_limit_heuristic[of _ _ abs_join "''Q''"
      "\<lparr>unique = [(KStr ''x'', JNull)], dynamic_limit = 1, queue = [''Q''], w_visited = {''Q''},
        w_fetched = []\<rparr>" web_xy 0]
    soft_limit_heuristic[of obj_xy "[JObj [(''id'', JStr ''x'')], JObj [(''id'', JStr ''y'')]]"
      abs_join "''R''" "worker_init ''R''" web_xy 0 "[]" 2 "''R''" "KStr ''y''" "''R''" 200
      "''x''" "''y''" obj_xy "[(''id'', JStr ''x'')]" "[(''id'', JStr ''y'')]"]
  by (simp add: obj_xy_def web_xy_def last_with_key_def item_key_def numeral_2_eq_2
      dynamic_eval)

text \<open>C4 as stated fails when the first sequence is empty: the soft limit it sets is 0, the
  worker does not stop although no fewer ids than that are accumulated, and the next
  sequence sets the soft limit again.\<close>

theorem soft_limit_heuristic_counterexample:
  "dynamic_limit
     (worker_body abs_join web_pages ''P1''
        ((worker_init ''P1'')\<lparr>queue := [], w_fetched := [''P1'']\<rparr>)) = 0
   \<and> dynamic_worker_run abs_join web_pages 3 ''P1'' =
       (True, \<lparr>unique = [(KStr ''x'', JObj [(''id'', JStr ''x'')])], dynamic_limit = 1, queue = [],
          w_visited = {''P1'', ''P2''}, w_fetched = [''P1'', ''P2'']\<rparr>)"
  by (simp add: dynamic_eval web_pages_def eval_nat_numeral insert_commute)

section \<open>Failure escalation\<close>



section \<open>Where the Link-Graph engine does not tolerate a fetch\<close>

text \<open>
  C5 (the code departs from it). In the graph where \<open>A\<close> links to \<open>B\<close> and \<open>C\<close>: when \<open>B\<close>
  answers with a body that parses to a JSON array, the engine raises instead of leaving
  \<open>B\<close> out, and the record of \<open>C\<close> is lost with the whole traversal; when \<open>B\<close> answers with
  status 404 and a JSON body, its document is taken as a record.
\<close>

theorem fault_tolerance_failing_input:
  "harvest_static_catalog abs_join web_array ''A'' 3 300 = Inl AttributeError
   \<and> harvest_static_catalog abs_join web_status ''A'' 3 300
       = Inr ([JObj obj_B, JObj obj_C], [])"
  by (simp add: static_eval web_array_def web_status_def obj_A_def obj_B_def obj_C_def)

text \<open>
  C10 (the code departs from it). A start URL whose body parses to a JSON array: the
  engine returns no pair, it raises.
\<close>

theorem no_failure_result_failing_input:
  "harvest_static_catalog abs_join web_root_array ''R.json'' 3 300 = Inl AttributeError"
  by (simp add: static_eval web_root_array_def)

end
